theory Spec2Isabelle
  imports Main "HOL-Library.Sublist"
begin

section \<open>Text\<close>

text \<open>
  The script works on Python 3 \<^verbatim>\<open>str\<close> values: finite sequences of Unicode code
  points. A code point is modelled by its number, a text by the list of its code points.
  The file is opened in text mode, so the \<open>data\<close> of a file below is the decoded text that
  \<^verbatim>\<open>f.read()\<close> returns and \<^verbatim>\<open>f.write\<close> takes.
\<close>

type_synonym str = "nat list"

definition ascii :: "string \<Rightarrow> str" where
  "ascii cs = map of_char cs"

section \<open>The two string operations the script uses\<close>

text \<open>
  \<^verbatim>\<open>old in content\<close>: some suffix of \<open>content\<close> starts with \<open>old\<close>.
\<close>

fun str_contains :: "'a list \<Rightarrow> 'a list \<Rightarrow> bool" where
  "str_contains old [] = (old = [])"
| "str_contains old (c # cs) = (prefix old (c # cs) \<or> str_contains old cs)"

text \<open>
  \<^verbatim>\<open>content.replace(old, new)\<close> with no count: scanning from the left, every match of
  \<open>old\<close> is replaced by \<open>new\<close> and the scan goes on behind the match, so the matches
  replaced do not overlap. For the empty \<open>old\<close> Python puts \<open>new\<close> before every
  code point and at the end.
\<close>

function str_replace :: "'a list \<Rightarrow> 'a list \<Rightarrow> 'a list \<Rightarrow> 'a list" where
  "str_replace old new [] = (if old = [] then new else [])"
| "str_replace old new (c # cs) =
     (if old = [] then new @ c # str_replace old new cs
      else if prefix old (c # cs) then new @ str_replace old new (drop (length old) (c # cs))
      else c # str_replace old new cs)"
  by pat_completeness auto
termination
  by (relation "measure (\<lambda>(old, new, s). length s)") (auto simp: Suc_le_eq)

section \<open>The literals of the script\<close>

text \<open>
  \<^verbatim>\<open>old_sensor_logic\<close> (lines 6 to 17) and \<^verbatim>\<open>new_sensor_logic\<close> (lines 19 to 49), one
  list item for each line of the triple-quoted literal. The code points outside ASCII
  are the warning sign U+26A0 with its variation selector U+FE0F and the arrow U+2192.
\<close>

definition old_sensor_logic :: str where
  \<open>old_sensor_logic = concat
    [ascii ''  // Look for sensor keys (slabwgt, slabvwc, etc.)\<newline>'',
     ascii ''  if (nodeData.length === 0) {\<newline>'',
     ascii ''    console.log('' @ [0x0027, 0x26A0, 0xFE0F] @ ascii ''  [NETWORK] Node data array is empty');\<newline>'',
     ascii ''    return null;\<newline>'',
     ascii ''  }\<newline>'',
     ascii ''  \<newline>'',
     ascii ''  const firstEntry = nodeData[0];\<newline>'',
     ascii ''  const sensorKeys = Object.keys(firstEntry).filter(k => \<newline>'',
     ascii ''    k.toLowerCase().includes('slab') || \<newline>'',
     ascii ''    k.toLowerCase().includes('wgt') || \<newline>'',
     ascii ''    k.toLowerCase().includes('vwc')\<newline>'',
     ascii ''  );'']\<close>

definition new_sensor_logic :: str where
  \<open>new_sensor_logic = concat
    [ascii ''  // Look for sensor keys (slabwgt, slabvwc, etc.)\<newline>'',
     ascii ''  if (nodeData.length === 0) {\<newline>'',
     ascii ''    console.log('' @ [0x0027, 0x26A0, 0xFE0F] @ ascii ''  [NETWORK] Node data array is empty');\<newline>'',
     ascii ''    return null;\<newline>'',
     ascii ''  }\<newline>'',
     ascii ''  \<newline>'',
     ascii ''  // Find first non-empty entry (skip empty objects at the start)\<newline>'',
     ascii ''  let firstEntry = null;\<newline>'',
     ascii ''  for (let i = 0; i < Math.min(10, nodeData.length); i++) {\<newline>'',
     ascii ''    if (nodeData[i] && Object.keys(nodeData[i]).length > 1) { // More than just "timestamp"\<newline>'',
     ascii ''      firstEntry = nodeData[i];\<newline>'',
     ascii ''      if (i > 0) {\<newline>'',
     ascii ''        console.log(`   '' @ [0x2192] @ ascii '' Skipped ${i} empty entries, using entry [${i}]`);\<newline>'',
     ascii ''      }\<newline>'',
     ascii ''      break;\<newline>'',
     ascii ''    }\<newline>'',
     ascii ''  }\<newline>'',
     ascii ''  \<newline>'',
     ascii ''  if (!firstEntry) {\<newline>'',
     ascii ''    console.log('' @ [0x0027, 0x26A0, 0xFE0F] @ ascii ''  [NETWORK] All entries are empty');\<newline>'',
     ascii ''    return null;\<newline>'',
     ascii ''  }\<newline>'',
     ascii ''  \<newline>'',
     ascii ''  // Look for sensor keys with flexible pattern matching (handles suffixes like "_1", "_2")\<newline>'',
     ascii ''  const sensorKeys = Object.keys(firstEntry).filter(k => {\<newline>'',
     ascii ''    const lower = k.toLowerCase();\<newline>'',
     ascii ''    return (lower.includes('slabwgt') || \<newline>'',
     ascii ''            lower.includes('slabvwc') || \<newline>'',
     ascii ''            lower.includes('calslabvwc')) && \<newline>'',
     ascii ''           k !== 'timestamp';\<newline>'',
     ascii ''  });'']\<close>

text \<open>The lines printed in the two branches (lines 57 to 60 and 62 to 63).\<close>

definition success_lines :: "str list" where
  "success_lines =
    [[0x2705] @ ascii '' FIXED: Sensor key parser now handles:'',
     ascii ''   1. Empty objects at the start of array'',
     ascii ''   2. Dynamic suffixes (slabwgt_1, slabwgt_2, etc.)'',
     ascii ''   3. Both slabwgt and calslabvwc keys'']"

definition failure_lines :: "str list" where
  "failure_lines =
    [[0x274C] @ ascii '' Could not find target section'',
     ascii ''   Will need manual inspection'']"

section \<open>Files and the run of the script\<close>

text \<open>
  The script touches the file system through \<^verbatim>\<open>open\<close> only. A file has its text (\<open>data\<close>) and
  the two access rights \<^verbatim>\<open>open\<close> asks for; a file system maps a path to the file
  there, if any. \<^verbatim>\<open>open(p, 'r')\<close> raises \<^verbatim>\<open>FileNotFoundError\<close> when there is no
  file and \<^verbatim>\<open>PermissionError\<close> when it may not be read; \<^verbatim>\<open>open(p, 'w')\<close> raises
  \<^verbatim>\<open>PermissionError\<close> when the file may not be written, and creates the file when
  there is none. The script catches no exception.
\<close>

datatype io_error = FileNotFoundError | PermissionError

record file_entry =
  data :: str
  readable :: bool
  writable :: bool

type_synonym filesystem = "string \<Rightarrow> file_entry option"

definition target :: string where
  "target = ''network-interceptor.js''"

definition read_file :: "filesystem \<Rightarrow> string \<Rightarrow> io_error + str" where
  "read_file fs p =
     (case fs p of
        None \<Rightarrow> Inl FileNotFoundError
      | Some f \<Rightarrow> if readable f then Inr (data f) else Inl PermissionError)"

definition write_file :: "filesystem \<Rightarrow> string \<Rightarrow> str \<Rightarrow> io_error + filesystem" where
  "write_file fs p t =
     (case fs p of
        None \<Rightarrow> Inr (fs(p \<mapsto> \<lparr>data = t, readable = True, writable = True\<rparr>))
      | Some f \<Rightarrow> if writable f then Inr (fs(p \<mapsto> f\<lparr>data := t\<rparr>)) else Inl PermissionError)"

text \<open>
  What a run leaves behind: the file system, the lines printed, and the exception that
  ended the run, if one did.
\<close>

record outcome =
  files :: filesystem
  printed :: "str list"
  raised :: "io_error option"

text \<open>
  The whole script, lines 1 to 63, on files whose bytes are text and with a console
  that prints every line. The run with the failures of decoding, encoding and printing
  as well is \<open>run_script\<close> further down; \<open>run_script_is_patcher\<close> ties the two.
\<close>

definition patcher :: "filesystem \<Rightarrow> outcome" where
  "patcher fs =
     (case read_file fs target of
        Inl e \<Rightarrow> \<lparr>files = fs, printed = [], raised = Some e\<rparr>
      | Inr content \<Rightarrow>
          if str_contains old_sensor_logic content then
            (case write_file fs target (str_replace old_sensor_logic new_sensor_logic content) of
               Inl e \<Rightarrow> \<lparr>files = fs, printed = [], raised = Some e\<rparr>
             | Inr fs' \<Rightarrow> \<lparr>files = fs', printed = success_lines, raised = None\<rparr>)
          else \<lparr>files = fs, printed = failure_lines, raised = None\<rparr>)"

section \<open>Notions the statements below speak in\<close>

text \<open>
  \<^verbatim>\<open>sep.join(parts)\<close>: the parts in order, with \<open>sep\<close> between neighbours. A text
  with \<open>n\<close> marked copies of \<open>old\<close> is \<open>join old us\<close> for the \<open>n + 1\<close> stretches
  \<open>us\<close> around them.
\<close>

fun join :: "'a list \<Rightarrow> 'a list list \<Rightarrow> 'a list" where
  "join sep [] = []"
| "join sep [u] = u"
| "join sep (u # v # vs) = u @ sep @ join sep (v # vs)"

text \<open>The number of positions of \<open>s\<close> at which \<open>p\<close> starts (matches may overlap).\<close>

fun occurrences :: "'a list \<Rightarrow> 'a list \<Rightarrow> nat" where
  "occurrences p [] = (if p = [] then 1 else 0)"
| "occurrences p (c # cs) = (if prefix p (c # cs) then 1 else 0) + occurrences p cs"

text \<open>
  Replacing the first occurrence only, as \<^verbatim>\<open>content.replace(old, new, 1)\<close> would.
  The script does not call this; it is the reading of the specification's words
  ``the first occurrence of Pattern replaced by Replacement'', kept for comparison.
\<close>

fun replace_first :: "'a list \<Rightarrow> 'a list \<Rightarrow> 'a list \<Rightarrow> 'a list" where
  "replace_first old new [] = (if old = [] then new else [])"
| "replace_first old new (c # cs) =
     (if prefix old (c # cs) then new @ drop (length old) (c # cs)
      else c # replace_first old new cs)"

text \<open>
  \<open>no_suffix_prefix xs ys\<close>: no non-empty suffix of \<open>xs\<close> is a prefix of \<open>ys\<close>.
  With it, \<open>unbordered p\<close> says that two copies of \<open>p\<close> cannot overlap, and
  \<open>overlap_free old new\<close> that a copy of \<open>old\<close> can neither lie inside a copy of
  \<open>new\<close>, nor contain one, nor overlap one at either end.
\<close>

fun no_suffix_prefix :: "'a list \<Rightarrow> 'a list \<Rightarrow> bool" where
  "no_suffix_prefix [] ys = True"
| "no_suffix_prefix (x # xs) ys = (\<not> prefix (x # xs) ys \<and> no_suffix_prefix xs ys)"

definition unbordered :: "'a list \<Rightarrow> bool" where
  "unbordered p = no_suffix_prefix (tl p) p"

definition overlap_free :: "'a list \<Rightarrow> 'a list \<Rightarrow> bool" where
  "overlap_free old new =
     (\<not> str_contains old new \<and> length old \<le> length new \<and>
      no_suffix_prefix (tl old) new \<and>
      no_suffix_prefix (drop (Suc (length new) - length old) new) old)"

text \<open>A file system holding the target file only, with the given text, readable and writable.\<close>

definition only_target :: "str \<Rightarrow> filesystem" where
  "only_target s = [target \<mapsto> \<lparr>data = s, readable = True, writable = True\<rparr>]"

text \<open>The same with the write permission taken away.\<close>

definition read_only_target :: "str \<Rightarrow> filesystem" where
  "read_only_target s = [target \<mapsto> \<lparr>data = s, readable = True, writable = False\<rparr>]"

section \<open>The run with every outcome of its input and output\<close>

text \<open>
  \<open>patcher\<close> above is the script on a file whose bytes are text and with a console
  that prints whatever it is given. The calls of the script can fail in more ways, and
  the script catches none of them:
  \<^item> \<^verbatim>\<open>open('network-interceptor.js', 'r')\<close> (line 2) raises \<^verbatim>\<open>FileNotFoundError\<close>
    when there is nothing at the path, \<^verbatim>\<open>IsADirectoryError\<close> when a directory is
    there and \<^verbatim>\<open>PermissionError\<close> when the file may not be read;
  \<^item> \<^verbatim>\<open>f.read()\<close> (line 3) raises \<^verbatim>\<open>UnicodeDecodeError\<close> when the bytes of the file
    are no text in the encoding that \<^verbatim>\<open>open\<close> took from the locale;
  \<^item> \<^verbatim>\<open>open('network-interceptor.js', 'w')\<close> (line 54) raises \<^verbatim>\<open>PermissionError\<close>
    when the file may not be written, and empties the file when it succeeds;
  \<^item> \<^verbatim>\<open>f.write(content)\<close> (line 55) raises \<^verbatim>\<open>UnicodeEncodeError\<close> when that encoding
    has no bytes for a code point of the new text; the file stays empty then;
  \<^item> each \<^verbatim>\<open>print\<close> (lines 57 to 60, 62 and 63) raises \<^verbatim>\<open>UnicodeEncodeError\<close> when
    the encoding of \<^verbatim>\<open>sys.stdout\<close> (set by the locale or by \<^verbatim>\<open>PYTHONIOENCODING\<close>)
    has no bytes for a code point of the line; the lines before it have been printed.

  A world holds what these calls look at: what is at each path, which texts the two
  encodings can encode, and the command line, which the script never reads. Nothing
  but the script touches the file during a run, so the second \<^verbatim>\<open>open\<close> finds the file
  that the first one found.
\<close>

datatype exception =
  FileError io_error | IsADirectoryError | UnicodeDecodeError | UnicodeEncodeError

text \<open>
  What is at a path: a directory, a file whose bytes are no text (with its read
  permission), or a file whose bytes are a text.
\<close>

datatype node = Directory | Garbled bool | Regular file_entry

record world =
  nodes :: "string \<Rightarrow> node option"
  file_encodes :: "str \<Rightarrow> bool"
  console_encodes :: "str \<Rightarrow> bool"
  argv :: "string list"

record result =
  after :: "string \<Rightarrow> node option"
  shown :: "str list"
  uncaught :: "exception option"

text \<open>A row of \<^verbatim>\<open>print\<close> calls: the lines that came out, and the exception that ended it.\<close>

fun print_lines :: "(str \<Rightarrow> bool) \<Rightarrow> str list \<Rightarrow> str list \<times> exception option" where
  "print_lines ok [] = ([], None)"
| "print_lines ok (l # ls) =
     (if ok l then (case print_lines ok ls of (out, e) \<Rightarrow> (l # out, e))
      else ([], Some UnicodeEncodeError))"

text \<open>The whole script once more, lines 1 to 63, with all of these outcomes.\<close>

definition run_script :: "world \<Rightarrow> result" where
  "run_script w =
     (case nodes w target of
        None \<Rightarrow>
          \<lparr>after = nodes w, shown = [], uncaught = Some (FileError FileNotFoundError)\<rparr>
      | Some Directory \<Rightarrow>
          \<lparr>after = nodes w, shown = [], uncaught = Some IsADirectoryError\<rparr>
      | Some (Garbled r) \<Rightarrow>
          \<lparr>after = nodes w, shown = [],
           uncaught = Some (if r then UnicodeDecodeError else FileError PermissionError)\<rparr>
      | Some (Regular f) \<Rightarrow>
          if \<not> readable f then
            \<lparr>after = nodes w, shown = [], uncaught = Some (FileError PermissionError)\<rparr>
          else if str_contains old_sensor_logic (data f) then
            (if \<not> writable f then
               \<lparr>after = nodes w, shown = [], uncaught = Some (FileError PermissionError)\<rparr>
             else if \<not> file_encodes w (str_replace old_sensor_logic new_sensor_logic (data f))
             then
               \<lparr>after = (nodes w)(target \<mapsto> Regular (f\<lparr>data := []\<rparr>)), shown = [],
                uncaught = Some UnicodeEncodeError\<rparr>
             else
               (case print_lines (console_encodes w) success_lines of
                  (out, e) \<Rightarrow>
                    \<lparr>after = (nodes w)(target \<mapsto> Regular
                       (f\<lparr>data := str_replace old_sensor_logic new_sensor_logic (data f)\<rparr>)),
                     shown = out, uncaught = e\<rparr>))
          else
            (case print_lines (console_encodes w) failure_lines of
               (out, e) \<Rightarrow> \<lparr>after = nodes w, shown = out, uncaught = e\<rparr>))"

text \<open>The files of a world that \<open>patcher\<close> speaks of: those whose bytes are a text.\<close>

definition text_files :: "(string \<Rightarrow> node option) \<Rightarrow> filesystem" where
  "text_files ns p = (case ns p of Some (Regular f) \<Rightarrow> Some f | _ \<Rightarrow> None)"

text \<open>
  Two worlds with the target file only, readable and writable, and a file encoding for
  every text: one with a console for every text, one with a console for ASCII only.
\<close>

definition unicode_console_world :: "str \<Rightarrow> world" where
  "unicode_console_world s =
     \<lparr>nodes = [target \<mapsto> Regular \<lparr>data = s, readable = True, writable = True\<rparr>],
      file_encodes = (\<lambda>t. True), console_encodes = (\<lambda>l. True), argv = []\<rparr>"

definition ascii_console_world :: "str \<Rightarrow> world" where
  "ascii_console_world s =
     \<lparr>nodes = [target \<mapsto> Regular \<lparr>data = s, readable = True, writable = True\<rparr>],
      file_encodes = (\<lambda>t. True), console_encodes = list_all (\<lambda>c. c < 128), argv = []\<rparr>"

section \<open>The string operations\<close>

lemma str_contains_iff_sublist: "str_contains p s \<longleftrightarrow> sublist p s"
  by (induction s) (auto simp: sublist_Cons_right)

lemma str_replace_match:
  "old \<noteq> [] \<Longrightarrow> str_replace old new (old @ rest) = new @ str_replace old new rest"
  by (cases old) simp_all

text \<open>
  The scan of \<open>str_replace\<close> as an induction rule: a text is empty, or starts with a
  match that is skipped as a whole, or starts with a code point that is no start of a
  match.
\<close>

lemma scan_induct [consumes 1, case_names Nil match skip]:
  assumes ne: "old \<noteq> []"
    and nil: "P []"
    and match: "\<And>rest. P rest \<Longrightarrow> P (old @ rest)"
    and skip: "\<And>c cs. \<not> prefix old (c # cs) \<Longrightarrow> P cs \<Longrightarrow> P (c # cs)"
  shows "P s"
proof (induction s rule: length_induct)
  case (1 s)
  show ?case
  proof (cases s)
    case Nil
    then show ?thesis using nil by simp
  next
    case (Cons c cs)
    show ?thesis
    proof (cases "prefix old s")
      case True
      then obtain rest where s: "s = old @ rest" by (auto simp: prefix_def)
      with ne have "length rest < length s" by simp
      with 1 have "P rest" by blast
      then show ?thesis unfolding s by (rule match)
    next
      case False
      have "P cs" using 1 Cons by simp
      with False show ?thesis unfolding Cons by (intro skip)
    qed
  qed
qed

lemma str_replace_absent:
  assumes "old \<noteq> []" and "\<not> sublist old s"
  shows "str_replace old new s = s"
  using assms(2) by (induction s) (use assms(1) in \<open>auto simp: sublist_Cons_right\<close>)

lemma prefix_overlong:
  assumes "prefix old (pre @ old @ post)" and "pre \<noteq> []"
  shows "sublist old (pre @ butlast old)"
proof (cases "old = []")
  case True
  then show ?thesis by simp
next
  case False
  have "prefix (pre @ butlast old) (pre @ old @ post)"
    by (metis False append_butlast_last_id prefix_def append.assoc same_prefix_prefix)
  moreover have "length old \<le> length (pre @ butlast old)"
    using assms(2) False by (cases pre) auto
  ultimately have "prefix old (pre @ butlast old)"
    using assms(1) prefix_length_prefix by blast
  then show ?thesis by (rule prefix_imp_sublist)
qed

lemma str_replace_first_match:
  assumes "old \<noteq> []" and "\<not> sublist old (pre @ butlast old)"
  shows "str_replace old new (pre @ old @ post) = pre @ new @ str_replace old new post"
  using assms(2)
proof (induction pre)
  case Nil
  then show ?case using assms(1) by (simp add: str_replace_match)
next
  case (Cons c pre)
  have "\<not> prefix old ((c # pre) @ old @ post)"
    using Cons.prems prefix_overlong by blast
  moreover have "\<not> sublist old (pre @ butlast old)"
    using Cons.prems by (auto simp: sublist_Cons_right)
  ultimately show ?case using Cons.IH assms(1) by simp
qed

lemma leftmost_no_earlier:
  assumes "old \<noteq> []"
    and "\<forall>pre' post'. pre @ old @ post = pre' @ old @ post' \<longrightarrow> length pre \<le> length pre'"
  shows "\<not> sublist old (pre @ butlast old)"
proof
  assume "sublist old (pre @ butlast old)"
  then obtain a b where ab: "pre @ butlast old = a @ old @ b" by (auto simp: sublist_def)
  have "pre @ old @ post = (pre @ butlast old) @ [last old] @ post"
    using assms(1) by simp
  also have "\<dots> = a @ old @ (b @ [last old] @ post)" unfolding ab by simp
  finally have "length pre \<le> length a" using assms(2) by blast
  moreover have "length (pre @ butlast old) = length (a @ old @ b)" using ab by simp
  then have "length pre + (length old - 1) = length a + length old + length b" by simp
  moreover have "0 < length old" using assms(1) by simp
  ultimately show False by arith
qed

lemma replace_first_match:
  assumes "old \<noteq> []"
  shows "replace_first old new (old @ rest) = new @ rest"
  using assms by (cases old) simp_all

section \<open>Overlaps\<close>

lemma no_suffix_prefix_iff:
  "no_suffix_prefix xs ys \<longleftrightarrow> (\<forall>p. p \<noteq> [] \<and> suffix p xs \<longrightarrow> \<not> prefix p ys)"
  by (induction xs) (auto simp: suffix_Cons)

lemma suffix_short:
  assumes "suffix q xs" and "length q \<le> n"
  shows "suffix q (drop (length xs - n) xs)"
proof -
  from assms(1) obtain w where xs: "xs = w @ q" by (auto simp: suffix_def)
  have "drop (length xs - n) xs = drop (length xs - n) w @ q"
    using assms(2) unfolding xs by simp
  then show ?thesis by (simp add: suffix_def)
qed

text \<open>
  After the replacement no copy of \<open>old\<close> is left, when \<open>old\<close> and \<open>new\<close> cannot
  overlap. First: a suffix of \<open>old\<close> that starts the patched text started the text.
\<close>

lemma overlap_freeD:
  assumes "overlap_free old new" and "old \<noteq> []"
  shows "\<not> sublist old new" and "\<not> sublist new old"
    and "\<And>p. p \<noteq> [] \<Longrightarrow> suffix p old \<Longrightarrow> p \<noteq> old \<Longrightarrow> \<not> prefix p new"
    and "\<And>q. q \<noteq> [] \<Longrightarrow> prefix q old \<Longrightarrow> q \<noteq> old \<Longrightarrow> \<not> suffix q new"
proof -
  show A: "\<not> sublist old new"
    using assms(1) by (simp add: overlap_free_def str_contains_iff_sublist)
  have len: "length old \<le> length new" using assms(1) by (simp add: overlap_free_def)
  show "\<not> sublist new old"
  proof
    assume "sublist new old"
    then obtain a b where "old = a @ new @ b" by (auto simp: sublist_def)
    with len have "old = new" by (cases a; cases b) auto
    with A show False by simp
  qed
  show "\<not> prefix p new" if "p \<noteq> []" "suffix p old" "p \<noteq> old" for p
  proof -
    from assms(2) obtain c cs where old: "old = c # cs" by (cases old) auto
    with that have "suffix p (tl old)" by (auto simp: suffix_Cons)
    moreover have "no_suffix_prefix (tl old) new"
      using assms(1) by (simp add: overlap_free_def)
    ultimately show ?thesis using that(1) by (auto simp: no_suffix_prefix_iff)
  qed
  show "\<not> suffix q new" if "q \<noteq> []" "prefix q old" "q \<noteq> old" for q
  proof
    assume sq: "suffix q new"
    from that have "length q < length old"
      by (metis prefix_length_le le_neq_implies_less prefix_length_prefix prefix_order.dual_order.refl prefix_order.antisym)
    then have "length q \<le> length old - 1" by simp
    from suffix_short [OF sq this]
    have "suffix q (drop (Suc (length new) - length old) new)"
      using assms(2) by (cases old) (auto simp: Suc_diff_le len)
    moreover have "no_suffix_prefix (drop (Suc (length new) - length old) new) old"
      using assms(1) by (simp add: overlap_free_def)
    ultimately show False using that by (auto simp: no_suffix_prefix_iff)
  qed
qed

lemma patched_prefix:
  assumes "overlap_free old new" and "old \<noteq> []"
  shows "p \<noteq> [] \<Longrightarrow> suffix p old \<Longrightarrow> prefix p (str_replace old new s) \<Longrightarrow> prefix p s"
  using assms(2)
proof (induction s arbitrary: p rule: scan_induct)
  case Nil
  then show ?case using assms(2) by simp
next
  case (match rest)
  from match.prems(3) have "prefix p (new @ str_replace old new rest)"
    using assms(2) by (simp add: str_replace_match)
  then consider (inside) "prefix p new" | (beyond) us where "p = new @ us"
    by (auto simp: prefix_append)
  then show ?case
  proof cases
    case inside
    then show ?thesis
      using overlap_freeD(1,3) [OF assms] match.prems(1,2) by (cases "p = old") auto
  next
    case beyond
    then have "sublist new old" using match.prems(2) by (auto simp: suffix_def sublist_def)
    then show ?thesis using overlap_freeD(2) [OF assms] by simp
  qed
next
  case (skip c cs)
  from skip.prems(3) skip.hyps have pre: "prefix p (c # str_replace old new cs)"
    using assms(2) by simp
  with skip.prems(1) obtain p' where p: "p = c # p'" and p': "prefix p' (str_replace old new cs)"
    by (cases p) auto
  show ?case
  proof (cases "p' = []")
    case True
    then show ?thesis using p by simp
  next
    case False
    moreover have "suffix p' old" using skip.prems(2) p by (auto dest: suffix_ConsD)
    ultimately have "prefix p' cs" using skip.IH p' by blast
    then show ?thesis using p by simp
  qed
qed

lemma patched_free:
  assumes "overlap_free old new" and "old \<noteq> []"
  shows "\<not> sublist old (str_replace old new s)"
  using assms(2)
proof (induction s rule: scan_induct)
  case Nil
  then show ?case using assms(2) by simp
next
  case (match rest)
  have "\<not> sublist old (new @ str_replace old new rest)"
  proof
    assume "sublist old (new @ str_replace old new rest)"
    then consider (inside) "sublist old new" | (behind) "sublist old (str_replace old new rest)"
      | (across) x1 x2 where "old = x1 @ x2" "suffix x1 new" "prefix x2 (str_replace old new rest)"
      by (auto simp: sublist_append)
    then show False
    proof cases
      case inside
      then show ?thesis using overlap_freeD(1) [OF assms] by simp
    next
      case behind
      then show ?thesis using match.IH by simp
    next
      case across
      show ?thesis
      proof (cases "x1 = []")
        case True
        with across have "sublist old (str_replace old new rest)" by auto
        then show ?thesis using match.IH by simp
      next
        case False
        show ?thesis
        proof (cases "x2 = []")
          case True
          with across have "sublist old new" by auto
          then show ?thesis using overlap_freeD(1) [OF assms] by simp
        next
          case x2: False
          have "prefix x1 old" "x1 \<noteq> old" using across(1) x2 by auto
          then show ?thesis using overlap_freeD(4) [OF assms False] across(2) by blast
        qed
      qed
    qed
  qed
  then show ?case using assms(2) by (simp add: str_replace_match)
next
  case (skip c cs)
  have "\<not> prefix old (str_replace old new (c # cs))"
    using patched_prefix [OF assms assms(2), of "c # cs"] skip.hyps by auto
  then show ?case using skip assms(2) by (simp add: sublist_Cons_right)
qed

section \<open>Counting the matches\<close>

text \<open>\<open>occurrences\<close> counts the positions at which the pattern starts.\<close>

lemma occurrences_card:
  "occurrences p s = card {i. i \<le> length s \<and> prefix p (drop i s)}"
proof (induction s)
  case Nil
  have "{i. i \<le> length ([]::'a list) \<and> prefix p (drop i [])} = (if p = [] then {0} else {})"
    by auto
  then show ?case by simp
next
  case (Cons c cs)
  let ?A = "{i. i \<le> length cs \<and> prefix p (drop i cs)}"
  have "{i. i \<le> length (c # cs) \<and> prefix p (drop i (c # cs))} =
      (if prefix p (c # cs) then {0} else {}) \<union> Suc ` ?A"
    apply (auto simp: image_iff)
    subgoal for i by (cases i) auto
    subgoal for i by (cases i) auto
    done
  moreover have "card (Suc ` ?A) = card ?A" by (simp add: card_image)
  moreover have "finite ?A" by simp
  ultimately show ?case using Cons.IH by (simp add: card_insert_if)
qed

lemma occurrences_behind_overlap:
  assumes "unbordered old" and "suffix p (tl old)"
  shows "occurrences old (p @ rest) = occurrences old rest"
  using assms(2)
proof (induction p)
  case Nil
  then show ?case by simp
next
  case (Cons c p)
  have "\<not> prefix old ((c # p) @ rest)"
  proof
    assume "prefix old ((c # p) @ rest)"
    moreover have "length (c # p) \<le> length old"
      using Cons.prems by (cases old) (auto dest: suffix_length_le)
    ultimately have "prefix (c # p) old"
      using prefix_length_prefix [of "c # p" "(c # p) @ rest" old] by simp
    then show False
      using assms(1) Cons.prems by (auto simp: unbordered_def no_suffix_prefix_iff)
  qed
  moreover have "suffix p (tl old)" using Cons.prems by (rule suffix_ConsD)
  ultimately show ?case using Cons.IH by simp
qed

lemma occurrences_match:
  assumes "unbordered old" and "old \<noteq> []"
  shows "occurrences old (old @ rest) = Suc (occurrences old rest)"
proof -
  from assms(2) obtain c cs where old: "old = c # cs" by (cases old) auto
  have "occurrences old (cs @ rest) = occurrences old rest"
    using occurrences_behind_overlap [OF assms(1), of cs rest] old by simp
  then show ?thesis using old by simp
qed

lemma join_Cons: "us \<noteq> [] \<Longrightarrow> join sep (u # us) = u @ sep @ join sep us"
  by (cases us) simp_all

lemma join_push: "join sep ((c # u) # us) = c # join sep (u # us)"
  by (cases us) simp_all

lemma prefix_hd_join: "prefix u (join sep (u # us))"
  by (cases us) simp_all

text \<open>
  The stretches around the matches that the scan of \<open>str_replace\<close> finds: the text is
  these stretches joined by \<open>old\<close>, the patched text is the same stretches joined by
  \<open>new\<close>, none of them holds a copy of \<open>old\<close>, and there is one more of them than there
  are occurrences of \<open>old\<close> in the text.
\<close>

lemma str_replace_stretches:
  assumes "unbordered old" and "old \<noteq> []"
  shows "\<exists>us. length us = Suc (occurrences old s) \<and> s = join old us \<and>
    (\<forall>u\<in>set us. \<not> sublist old u) \<and> str_replace old new s = join new us"
  using assms(2)
proof (induction s rule: scan_induct)
  case Nil
  have "length [[]::'a list] = Suc (occurrences old []) \<and> [] = join old [[]] \<and>
    (\<forall>u\<in>set [[]]. \<not> sublist old u) \<and> str_replace old new [] = join new [[]]"
    using assms(2) by simp
  then show ?case by blast
next
  case (match rest)
  then obtain us where us: "length us = Suc (occurrences old rest)" "rest = join old us"
    "\<forall>u\<in>set us. \<not> sublist old u" "str_replace old new rest = join new us"
    by blast
  from us(1) have ne: "us \<noteq> []" by auto
  have "length ([] # us) = Suc (occurrences old (old @ rest))"
    using us(1) occurrences_match [OF assms] by simp
  moreover have "old @ rest = join old ([] # us)"
    using us(2) ne by (simp add: join_Cons)
  moreover have "\<forall>u\<in>set ([] # us). \<not> sublist old u"
    using us(3) assms(2) by simp
  moreover have "str_replace old new (old @ rest) = join new ([] # us)"
    using us(4) ne assms(2) by (simp add: join_Cons str_replace_match)
  ultimately show ?case by blast
next
  case (skip c cs)
  then obtain us where us: "length us = Suc (occurrences old cs)" "cs = join old us"
    "\<forall>u\<in>set us. \<not> sublist old u" "str_replace old new cs = join new us"
    by blast
  from us(1) obtain u vs where uvs: "us = u # vs" by (cases us) auto
  have "length ((c # u) # vs) = Suc (occurrences old (c # cs))"
    using us(1) uvs skip.hyps by simp
  moreover have "c # cs = join old ((c # u) # vs)"
    using us(2) uvs by (simp add: join_push)
  moreover have "\<not> sublist old (c # u)"
  proof -
    have "prefix (c # u) (c # cs)" using us(2) uvs prefix_hd_join by auto
    then have "\<not> prefix old (c # u)" using skip.hyps prefix_order.trans by blast
    moreover have "\<not> sublist old u" using us(3) uvs by simp
    ultimately show ?thesis by (simp add: sublist_Cons_right)
  qed
  then have "\<forall>w\<in>set ((c # u) # vs). \<not> sublist old w"
    using us(3) uvs by simp
  moreover have "str_replace old new (c # cs) = join new ((c # u) # vs)"
    using us(4) uvs skip.hyps assms(2) by (simp add: join_push)
  ultimately show ?case by blast
qed

lemma occurrences_pos_iff: "0 < occurrences p s \<longleftrightarrow> sublist p s"
  by (induction s) (auto simp: sublist_Cons_right)

section \<open>The two literals\<close>

text \<open>
  The facts about \<open>old_sensor_logic\<close> and \<open>new_sensor_logic\<close> are settled by running
  the checks on the literals: first the literals are written out as lists of numbers,
  then the recursion of the check is unfolded with nothing but its own equations.
\<close>

lemmas run_check =
  no_suffix_prefix.simps str_contains.simps Cons_prefix_Cons prefix_Nil Nil_prefix
  numeral_eq_iff num.inject num.distinct simp_thms list.inject list.distinct

lemma old_nonempty: "old_sensor_logic \<noteq> []"
  by (simp add: old_sensor_logic_def ascii_def)


lemma length_old: "length old_sensor_logic = 378"
  by (simp add: old_sensor_logic_def ascii_def)

lemma length_new: "length new_sensor_logic = 1021"
  by (simp add: new_sensor_logic_def ascii_def)

text \<open>
  The old block reads \<^verbatim>\<open>nodeData[0]\<close>; the new block has no \<^verbatim>\<open>0]\<close> anywhere. So the
  old block is no part of the new one.
\<close>

lemma index_zero_in_old: "str_contains [48, 93] old_sensor_logic"
  apply (simp add: old_sensor_logic_def ascii_def del: str_contains.simps)
  apply (simp only: run_check)
  done

lemma index_zero_not_in_new: "\<not> str_contains [48, 93] new_sensor_logic"
  apply (simp add: new_sensor_logic_def ascii_def del: str_contains.simps)
  apply (simp only: run_check)
  done

lemma old_not_in_new: "\<not> sublist old_sensor_logic new_sensor_logic"
proof
  assume "sublist old_sensor_logic new_sensor_logic"
  moreover have "sublist [48, 93] old_sensor_logic"
    using index_zero_in_old by (simp add: str_contains_iff_sublist)
  ultimately have "sublist [48, 93] new_sensor_logic"
    by (meson sublist_order.order.trans)
  then show False
    using index_zero_not_in_new by (simp add: str_contains_iff_sublist)
qed

lemma old_tail_new_head: "no_suffix_prefix (tl old_sensor_logic) new_sensor_logic"
  apply (simp add: old_sensor_logic_def new_sensor_logic_def ascii_def
      del: no_suffix_prefix.simps)
  apply (simp only: run_check)
  done

lemma new_tail_old_head:
  "no_suffix_prefix (drop 644 new_sensor_logic) old_sensor_logic"
  apply (simp add: old_sensor_logic_def new_sensor_logic_def ascii_def
      del: no_suffix_prefix.simps)
  apply (simp only: run_check)
  done

lemma old_unbordered: "unbordered old_sensor_logic"
  unfolding unbordered_def
  apply (simp add: old_sensor_logic_def ascii_def del: no_suffix_prefix.simps)
  apply (simp only: run_check)
  done

lemma old_new_overlap_free: "overlap_free old_sensor_logic new_sensor_logic"
  unfolding overlap_free_def
  using old_not_in_new old_tail_new_head new_tail_old_head
  by (simp add: str_contains_iff_sublist length_old length_new)

lemma new_differs_from_old: "new_sensor_logic \<noteq> old_sensor_logic"
  using old_not_in_new by auto

lemma success_lines_not_failure_lines: "success_lines \<noteq> failure_lines"
  by (simp add: success_lines_def failure_lines_def)

lemma success_lines_nonempty: "success_lines \<noteq> []"
  by (simp add: success_lines_def)

lemma failure_lines_nonempty: "failure_lines \<noteq> []"
  by (simp add: failure_lines_def)

section \<open>The run, branch by branch\<close>

lemma patcher_no_file:
  assumes "fs target = None"
  shows "patcher fs = \<lparr>files = fs, printed = [], raised = Some FileNotFoundError\<rparr>"
  using assms by (simp add: patcher_def read_file_def)

lemma patcher_unreadable:
  assumes "fs target = Some f" and "\<not> readable f"
  shows "patcher fs = \<lparr>files = fs, printed = [], raised = Some PermissionError\<rparr>"
  using assms by (simp add: patcher_def read_file_def)

lemma patcher_absent:
  assumes "fs target = Some f" and "readable f"
    and "\<not> sublist old_sensor_logic (data f)"
  shows "patcher fs = \<lparr>files = fs, printed = failure_lines, raised = None\<rparr>"
  using assms by (simp add: patcher_def read_file_def str_contains_iff_sublist)

lemma patcher_found:
  assumes "fs target = Some f" and "readable f" and "writable f"
    and "sublist old_sensor_logic (data f)"
  shows "patcher fs =
    \<lparr>files = fs(target \<mapsto> f\<lparr>data := str_replace old_sensor_logic new_sensor_logic (data f)\<rparr>),
     printed = success_lines, raised = None\<rparr>"
  using assms by (simp add: patcher_def read_file_def write_file_def str_contains_iff_sublist)

lemma patcher_unwritable:
  assumes "fs target = Some f" and "readable f" and "\<not> writable f"
    and "sublist old_sensor_logic (data f)"
  shows "patcher fs = \<lparr>files = fs, printed = [], raised = Some PermissionError\<rparr>"
  using assms by (simp add: patcher_def read_file_def write_file_def str_contains_iff_sublist)

lemma patcher_successD:
  assumes "printed (patcher fs) = success_lines"
  obtains f where "fs target = Some f" "readable f" "writable f"
    "sublist old_sensor_logic (data f)"
proof (cases "fs target")
  case None
  then show ?thesis
    using assms success_lines_nonempty by (simp add: patcher_no_file)
next
  case (Some f)
  show ?thesis
  proof (cases "readable f")
    case False
    then show ?thesis
      using assms Some success_lines_nonempty by (simp add: patcher_unreadable)
  next
    case r: True
    show ?thesis
    proof (cases "sublist old_sensor_logic (data f)")
      case False
      then show ?thesis
        using assms Some r success_lines_not_failure_lines by (simp add: patcher_absent)
    next
      case found: True
      show ?thesis
      proof (cases "writable f")
        case False
        then show ?thesis
          using assms Some r found success_lines_nonempty by (simp add: patcher_unwritable)
      next
        case True
        then show ?thesis using that Some r found by blast
      qed
    qed
  qed
qed


lemma only_target_entry:
  "only_target s target = Some \<lparr>data = s, readable = True, writable = True\<rparr>"
  by (simp add: only_target_def)

lemma only_target_update:
  "(only_target s)(target \<mapsto> \<lparr>data = t, readable = True, writable = True\<rparr>) = only_target t"
  by (simp add: only_target_def)

lemma patcher_only_target_found:
  assumes "sublist old_sensor_logic s"
  shows "patcher (only_target s) =
    \<lparr>files = only_target (str_replace old_sensor_logic new_sensor_logic s),
     printed = success_lines, raised = None\<rparr>"
  using patcher_found [of "only_target s" "\<lparr>data = s, readable = True, writable = True\<rparr>"] assms
  by (simp add: only_target_entry only_target_update)

lemma str_replace_old_twice:
  "str_replace old_sensor_logic new_sensor_logic (old_sensor_logic @ old_sensor_logic)
    = new_sensor_logic @ new_sensor_logic"
  using str_replace_match [OF old_nonempty, of new_sensor_logic old_sensor_logic]
    str_replace_match [OF old_nonempty, of new_sensor_logic "[]"]
  by (simp add: old_nonempty)

section \<open>Stretches determine the patched text\<close>

lemma no_match_into_next_copy:
  assumes "unbordered old" and "old \<noteq> []" and "\<not> sublist old u"
  shows "\<not> sublist old (u @ butlast old)"
proof
  assume "sublist old (u @ butlast old)"
  then consider (left) "sublist old u" | (right) "sublist old (butlast old)"
    | (across) x1 x2 where "old = x1 @ x2" "suffix x1 u" "prefix x2 (butlast old)"
    by (auto simp: sublist_append)
  then show False
  proof cases
    case left
    then show ?thesis using assms(3) by simp
  next
    case right
    then have "length old \<le> length (butlast old)" by (rule sublist_length_le)
    moreover have "length (butlast old) = length old - 1" by simp
    moreover have "0 < length old" using assms(2) by simp
    ultimately show ?thesis by arith
  next
    case across
    show ?thesis
    proof (cases "x2 = []")
      case True
      then have "sublist old u" using across(1,2) by auto
      then show ?thesis using assms(3) by simp
    next
      case False
      have "length x2 \<le> length (butlast old)" using across(3) by (rule prefix_length_le)
      moreover have "length (butlast old) = length old - 1" by simp
      moreover have "0 < length old" using assms(2) by simp
      ultimately have short: "length x2 < length old" by arith
      have "suffix x2 old" using across(1) by (simp add: suffix_def)
      then have "suffix x2 (tl old)"
        using short assms(2) by (cases old) (auto simp: suffix_Cons)
      moreover have "prefix x2 old"
        using across(3) prefixeq_butlast prefix_order.trans by blast
      ultimately show ?thesis
        using assms(1) False by (auto simp: unbordered_def no_suffix_prefix_iff)
    qed
  qed
qed

lemma str_replace_join:
  assumes "unbordered old" and "old \<noteq> []"
  shows "us \<noteq> [] \<Longrightarrow> \<forall>u\<in>set us. \<not> sublist old u \<Longrightarrow>
    str_replace old new (join old us) = join new us"
proof (induction us)
  case Nil
  then show ?case by simp
next
  case (Cons u vs)
  have u: "\<not> sublist old u" using Cons.prems(2) by simp
  show ?case
  proof (cases "vs = []")
    case True
    then show ?thesis using u assms(2) by (simp add: str_replace_absent)
  next
    case False
    have "\<not> sublist old (u @ butlast old)"
      using no_match_into_next_copy [OF assms u] .
    then have "str_replace old new (u @ old @ join old vs) =
        u @ new @ str_replace old new (join old vs)"
      by (rule str_replace_first_match [OF assms(2)])
    moreover have "str_replace old new (join old vs) = join new vs"
      using Cons.IH False Cons.prems(2) by simp
    ultimately show ?thesis using False by (simp add: join_Cons)
  qed
qed

section \<open>The run with every outcome, branch by branch\<close>

lemma print_lines_eq:
  "print_lines ok ls =
    (takeWhile ok ls, if list_all ok ls then None else Some UnicodeEncodeError)"
  by (induction ls) auto

lemma run_script_read_fails:
  "nodes w target = None \<Longrightarrow> run_script w =
     \<lparr>after = nodes w, shown = [], uncaught = Some (FileError FileNotFoundError)\<rparr>"
  "nodes w target = Some Directory \<Longrightarrow> run_script w =
     \<lparr>after = nodes w, shown = [], uncaught = Some IsADirectoryError\<rparr>"
  "nodes w target = Some (Garbled r) \<Longrightarrow> run_script w =
     \<lparr>after = nodes w, shown = [],
      uncaught = Some (if r then UnicodeDecodeError else FileError PermissionError)\<rparr>"
  "nodes w target = Some (Regular f) \<Longrightarrow> \<not> readable f \<Longrightarrow> run_script w =
     \<lparr>after = nodes w, shown = [], uncaught = Some (FileError PermissionError)\<rparr>"
  by (simp_all add: run_script_def)

lemma run_script_absent:
  assumes "nodes w target = Some (Regular f)" and "readable f"
    and "\<not> sublist old_sensor_logic (data f)"
  shows "run_script w =
    \<lparr>after = nodes w, shown = takeWhile (console_encodes w) failure_lines,
     uncaught = (if list_all (console_encodes w) failure_lines then None
       else Some UnicodeEncodeError)\<rparr>"
  using assms by (simp add: run_script_def str_contains_iff_sublist print_lines_eq)

lemma run_script_unwritable:
  assumes "nodes w target = Some (Regular f)" and "readable f"
    and "sublist old_sensor_logic (data f)" and "\<not> writable f"
  shows "run_script w =
    \<lparr>after = nodes w, shown = [], uncaught = Some (FileError PermissionError)\<rparr>"
  using assms by (simp add: run_script_def str_contains_iff_sublist)

lemma run_script_unencodable:
  assumes "nodes w target = Some (Regular f)" and "readable f"
    and "sublist old_sensor_logic (data f)" and "writable f"
    and "\<not> file_encodes w (str_replace old_sensor_logic new_sensor_logic (data f))"
  shows "run_script w =
    \<lparr>after = (nodes w)(target \<mapsto> Regular (f\<lparr>data := []\<rparr>)), shown = [],
     uncaught = Some UnicodeEncodeError\<rparr>"
  using assms by (simp add: run_script_def str_contains_iff_sublist)

lemma run_script_written:
  assumes "nodes w target = Some (Regular f)" and "readable f"
    and "sublist old_sensor_logic (data f)" and "writable f"
    and "file_encodes w (str_replace old_sensor_logic new_sensor_logic (data f))"
  shows "run_script w =
    \<lparr>after = (nodes w)(target \<mapsto> Regular
       (f\<lparr>data := str_replace old_sensor_logic new_sensor_logic (data f)\<rparr>)),
     shown = takeWhile (console_encodes w) success_lines,
     uncaught = (if list_all (console_encodes w) success_lines then None
       else Some UnicodeEncodeError)\<rparr>"
  using assms by (simp add: run_script_def str_contains_iff_sublist print_lines_eq)

lemma text_files_update:
  "text_files (ns(p \<mapsto> Regular g)) = (text_files ns)(p \<mapsto> g)"
  by (rule ext) (simp add: text_files_def)

text \<open>
  Where the bytes of the file are a text, the new text can be encoded and the console
  can print the six lines, \<open>run_script\<close> is \<open>patcher\<close> on the text files of the world.
\<close>

lemma run_script_is_patcher:
  assumes "nodes w target = None \<or> (\<exists>f. nodes w target = Some (Regular f))"
    and "\<And>t. file_encodes w t"
    and "list_all (console_encodes w) success_lines"
    and "list_all (console_encodes w) failure_lines"
  shows "text_files (after (run_script w)) = files (patcher (text_files (nodes w)))"
    and "shown (run_script w) = printed (patcher (text_files (nodes w)))"
    and "uncaught (run_script w) = map_option FileError (raised (patcher (text_files (nodes w))))"
proof -
  let ?fs = "text_files (nodes w)"
  have all: "text_files (after (run_script w)) = files (patcher ?fs) \<and>
    shown (run_script w) = printed (patcher ?fs) \<and>
    uncaught (run_script w) = map_option FileError (raised (patcher ?fs))"
  proof (cases "nodes w target")
    case None
    then have "?fs target = None" by (simp add: text_files_def)
    then show ?thesis
      using None by (simp add: patcher_no_file run_script_read_fails)
  next
    case (Some n)
    with assms(1) obtain f where f: "nodes w target = Some (Regular f)" by auto
    then have fs: "?fs target = Some f" by (simp add: text_files_def)
    show ?thesis
    proof (cases "readable f")
      case False
      then show ?thesis
        using f fs by (simp add: patcher_unreadable [of ?fs f] run_script_read_fails)
    next
      case r: True
      show ?thesis
      proof (cases "sublist old_sensor_logic (data f)")
        case False
        then show ?thesis
          using f fs r assms(4)
          by (simp add: patcher_absent [of ?fs f] run_script_absent [of w f]
              takeWhile_eq_all_conv [THEN iffD2] list_all_iff)
      next
        case found: True
        show ?thesis
        proof (cases "writable f")
          case False
          then show ?thesis
            using f fs r found
            by (simp add: patcher_unwritable [of ?fs f] run_script_unwritable [of w f])
        next
          case True
          then show ?thesis
            using f fs r found assms(2,3)
            by (simp add: patcher_found [of ?fs f] run_script_written [of w f]
                takeWhile_eq_all_conv [THEN iffD2] list_all_iff text_files_update)
        qed
      qed
    qed
  qed
  from all show "text_files (after (run_script w)) = files (patcher ?fs)" by simp
  from all show "shown (run_script w) = printed (patcher ?fs)" by simp
  from all show "uncaught (run_script w) = map_option FileError (raised (patcher ?fs))"
    by simp
qed

lemma run_script_normal_end:
  assumes "uncaught (run_script w) = None"
  shows "shown (run_script w) = success_lines \<or> shown (run_script w) = failure_lines"
  using assms
  by (auto simp: run_script_def print_lines_eq list_all_iff
      split: option.splits node.splits if_splits)


lemma str_replace_old:
  "str_replace old_sensor_logic new_sensor_logic old_sensor_logic = new_sensor_logic"
  using str_replace_match [OF old_nonempty, of new_sensor_logic "[]"]
  by (simp add: old_nonempty)

section \<open>The claims\<close>





text \<open>
  C3, as the code has it. When the Pattern occurs in the text of the target file and
  \<open>pre @ old_sensor_logic @ post\<close> marks its first occurrence, a run on a file that can
  be read and written replaces that occurrence and every later one: \<open>post\<close> is a row
  of stretches without the Pattern, joined by the Pattern, and the run leaves the file
  with \<open>pre\<close>, then the Replacement, then the same stretches joined by the Replacement.
  (By \<open>str_replace_join\<close> the stretches fix that text.)
\<close>

theorem C3_first_and_later_occurrences:
  assumes "fs target = Some f" and "readable f" and "writable f"
    and "data f = pre @ old_sensor_logic @ post"
    and "\<forall>pre' post'. data f = pre' @ old_sensor_logic @ post'
      \<longrightarrow> length pre \<le> length pre'"
  shows "\<exists>us. us \<noteq> [] \<and> post = join old_sensor_logic us \<and>
    (\<forall>u\<in>set us. \<not> sublist old_sensor_logic u) \<and>
    files (patcher fs) =
      fs(target \<mapsto> f\<lparr>data := pre @ new_sensor_logic @ join new_sensor_logic us\<rparr>) \<and>
    printed (patcher fs) = success_lines \<and> raised (patcher fs) = None"
proof -
  have found: "sublist old_sensor_logic (data f)"
    unfolding assms(4) by (rule sublist_appendI)
  have "\<not> sublist old_sensor_logic (pre @ butlast old_sensor_logic)"
    using assms(5) unfolding assms(4) by (rule leftmost_no_earlier [OF old_nonempty])
  then have first: "str_replace old_sensor_logic new_sensor_logic (data f) =
      pre @ new_sensor_logic @ str_replace old_sensor_logic new_sensor_logic post"
    unfolding assms(4) by (rule str_replace_first_match [OF old_nonempty])
  obtain us where us: "length us = Suc (occurrences old_sensor_logic post)"
    "post = join old_sensor_logic us" "\<forall>u\<in>set us. \<not> sublist old_sensor_logic u"
    "str_replace old_sensor_logic new_sensor_logic post = join new_sensor_logic us"
    using str_replace_stretches [OF old_unbordered old_nonempty] by blast
  have "us \<noteq> []" using us(1) by auto
  moreover have "files (patcher fs) =
      fs(target \<mapsto> f\<lparr>data := pre @ new_sensor_logic @ join new_sensor_logic us\<rparr>) \<and>
    printed (patcher fs) = success_lines \<and> raised (patcher fs) = None"
    using patcher_found [of fs f] assms(1-3) found first us(4) by simp
  ultimately show ?thesis using us(2,3) by blast
qed

theorem C3_first_and_later_occurrences_witness:
  "(\<exists>us. us \<noteq> [] \<and> old_sensor_logic = join old_sensor_logic us \<and>
     (\<forall>u\<in>set us. \<not> sublist old_sensor_logic u) \<and>
     files (patcher (only_target (old_sensor_logic @ old_sensor_logic))) =
       only_target (new_sensor_logic @ join new_sensor_logic us) \<and>
     printed (patcher (only_target (old_sensor_logic @ old_sensor_logic))) = success_lines) \<and>
   files (patcher (only_target (old_sensor_logic @ old_sensor_logic))) =
     only_target (new_sensor_logic @ new_sensor_logic)"
proof -
  let ?f = "\<lparr>data = old_sensor_logic @ old_sensor_logic, readable = True, writable = True\<rparr>"
  have "data ?f = [] @ old_sensor_logic @ old_sensor_logic" by simp
  moreover have "\<forall>pre' post'. data ?f = pre' @ old_sensor_logic @ post'
      \<longrightarrow> length ([]::str) \<le> length pre'"
    by simp
  ultimately have "\<exists>us. us \<noteq> [] \<and> old_sensor_logic = join old_sensor_logic us \<and>
     (\<forall>u\<in>set us. \<not> sublist old_sensor_logic u) \<and>
     files (patcher (only_target (old_sensor_logic @ old_sensor_logic))) =
       only_target (new_sensor_logic @ join new_sensor_logic us) \<and>
     printed (patcher (only_target (old_sensor_logic @ old_sensor_logic))) = success_lines"
    using C3_first_and_later_occurrences
      [of "only_target (old_sensor_logic @ old_sensor_logic)" ?f "[]" old_sensor_logic]
    by (simp add: only_target_entry only_target_update) blast
  moreover have "files (patcher (only_target (old_sensor_logic @ old_sensor_logic))) =
     only_target (new_sensor_logic @ new_sensor_logic)"
    using patcher_only_target_found [of "old_sensor_logic @ old_sensor_logic"]
    by (simp add: str_replace_old_twice)
  ultimately show ?thesis by blast
qed

text \<open>
  C3, as the claim has it, fails on a file that holds the Pattern twice: replacing the
  first occurrence only would leave the second copy of the Pattern in place, and the
  run replaces both.
\<close>

theorem C3_first_only_counterexample:
  "sublist old_sensor_logic (old_sensor_logic @ old_sensor_logic) \<and>
   files (patcher (only_target (old_sensor_logic @ old_sensor_logic))) =
     only_target (new_sensor_logic @ new_sensor_logic) \<and>
   replace_first old_sensor_logic new_sensor_logic (old_sensor_logic @ old_sensor_logic) =
     new_sensor_logic @ old_sensor_logic \<and>
   only_target (new_sensor_logic @ new_sensor_logic) \<noteq>
     only_target (new_sensor_logic @ old_sensor_logic)"
proof -
  have "only_target (new_sensor_logic @ new_sensor_logic) target \<noteq>
      only_target (new_sensor_logic @ old_sensor_logic) target"
    using new_differs_from_old by (simp add: only_target_entry)
  then have "only_target (new_sensor_logic @ new_sensor_logic) \<noteq>
      only_target (new_sensor_logic @ old_sensor_logic)"
    by metis
  then show ?thesis
    using patcher_only_target_found [of "old_sensor_logic @ old_sensor_logic"]
    by (simp add: str_replace_old_twice replace_first_match [OF old_nonempty])
qed

text \<open>
  C4. When a first run succeeds (it printed the success lines), a second run on the
  file system it left behind prints the failure lines, changes nothing and raises
  nothing: the patched text holds no copy of the Pattern any more.
\<close>

theorem C4_second_run_fails:
  assumes "printed (patcher fs) = success_lines"
  shows "printed (patcher (files (patcher fs))) = failure_lines \<and>
    files (patcher (files (patcher fs))) = files (patcher fs) \<and>
    raised (patcher (files (patcher fs))) = None"
proof -
  from assms obtain f where f: "fs target = Some f" "readable f" "writable f"
    "sublist old_sensor_logic (data f)"
    by (rule patcher_successD)
  let ?g = "f\<lparr>data := str_replace old_sensor_logic new_sensor_logic (data f)\<rparr>"
  have first: "files (patcher fs) = fs(target \<mapsto> ?g)"
    using patcher_found [of fs f] f by simp
  have "\<not> sublist old_sensor_logic (data ?g)"
    using patched_free [OF old_new_overlap_free old_nonempty] by simp
  moreover have "(fs(target \<mapsto> ?g)) target = Some ?g" by simp
  moreover have "readable ?g" using f(2) by simp
  ultimately have
    "patcher (fs(target \<mapsto> ?g)) =
      \<lparr>files = fs(target \<mapsto> ?g), printed = failure_lines, raised = None\<rparr>"
    using patcher_absent [of "fs(target \<mapsto> ?g)" ?g] by blast
  then show ?thesis unfolding first by simp
qed

theorem C4_second_run_fails_witness:
  "printed (patcher (only_target old_sensor_logic)) = success_lines \<and>
   printed (patcher (files (patcher (only_target old_sensor_logic)))) = failure_lines \<and>
   files (patcher (files (patcher (only_target old_sensor_logic)))) =
     files (patcher (only_target old_sensor_logic)) \<and>
   raised (patcher (files (patcher (only_target old_sensor_logic)))) = None"
proof -
  have "printed (patcher (only_target old_sensor_logic)) = success_lines"
    using patcher_only_target_found [of old_sensor_logic] by simp
  then show ?thesis
    using C4_second_run_fails [of "only_target old_sensor_logic"] by simp
qed

text \<open>
  C5. A run on a file that can be read and written changes the text only where the
  Pattern itself stands: the text is a row of stretches, none of which holds a copy of
  the Pattern, with the Pattern between neighbours, and the text of the file after the
  run is the same stretches in the same order with the Replacement between neighbours.
  (When the Pattern is absent there is one stretch, the whole text.)
\<close>

theorem C5_text_outside_matches_kept:
  assumes "fs target = Some f" and "readable f" and "writable f"
  shows "\<exists>us. us \<noteq> [] \<and> data f = join old_sensor_logic us \<and>
    (\<forall>u\<in>set us. \<not> sublist old_sensor_logic u) \<and>
    map_option data (files (patcher fs) target) = Some (join new_sensor_logic us)"
proof -
  obtain us where us: "length us = Suc (occurrences old_sensor_logic (data f))"
    "data f = join old_sensor_logic us" "\<forall>u\<in>set us. \<not> sublist old_sensor_logic u"
    "str_replace old_sensor_logic new_sensor_logic (data f) = join new_sensor_logic us"
    using str_replace_stretches [OF old_unbordered old_nonempty] by blast
  have "map_option data (files (patcher fs) target) = Some (join new_sensor_logic us)"
  proof (cases "sublist old_sensor_logic (data f)")
    case True
    then show ?thesis
      using patcher_found [of fs f] assms us(4) by simp
  next
    case False
    then have "join new_sensor_logic us = data f"
      using us(4) str_replace_absent [OF old_nonempty] by metis
    then show ?thesis
      using patcher_absent [of fs f] assms False by simp
  qed
  moreover have "us \<noteq> []" using us(1) by auto
  ultimately show ?thesis using us(2,3) by blast
qed

theorem C5_text_outside_matches_kept_witness:
  "\<exists>us. us \<noteq> [] \<and> [10] @ old_sensor_logic = join old_sensor_logic us \<and>
    (\<forall>u\<in>set us. \<not> sublist old_sensor_logic u) \<and>
    map_option data (files (patcher (only_target ([10] @ old_sensor_logic))) target) =
      Some (join new_sensor_logic us)"
  using C5_text_outside_matches_kept
    [of "only_target ([10] @ old_sensor_logic)"
      "\<lparr>data = [10] @ old_sensor_logic, readable = True, writable = True\<rparr>"]
  by (simp add: only_target_entry)

text \<open>
  C6, as the code has it. When the target file is missing or cannot be read (nothing
  is at the path, a directory is there, the file may not be read, or its bytes are no
  text), the run ends with the exception of the read, and nothing is written and
  nothing is printed. These are not the only errors: every later call can fail as
  well, and the script catches none of it. With the Pattern in the text, the second
  \<^verbatim>\<open>open\<close> fails on a file that may not be written (nothing is written or printed),
  and the write fails on a text the file's encoding cannot encode (the file is left
  empty, nothing is printed); in either branch a \<^verbatim>\<open>print\<close> fails on a line the console
  cannot encode (the lines before it are out, and in the success branch the file is
  rewritten already). When the read and every later call that is reached succeed, the
  run ends normally, with the success lines or the failure lines printed in full.
\<close>

theorem C6_unhandled_errors:
  "(nodes w target = None \<longrightarrow> run_script w =
      \<lparr>after = nodes w, shown = [], uncaught = Some (FileError FileNotFoundError)\<rparr>) \<and>
   (nodes w target = Some Directory \<longrightarrow> run_script w =
      \<lparr>after = nodes w, shown = [], uncaught = Some IsADirectoryError\<rparr>) \<and>
   (\<forall>r. nodes w target = Some (Garbled r) \<longrightarrow> run_script w =
      \<lparr>after = nodes w, shown = [],
       uncaught = Some (if r then UnicodeDecodeError else FileError PermissionError)\<rparr>) \<and>
   (\<forall>f. nodes w target = Some (Regular f) \<longrightarrow>
      (\<not> readable f \<longrightarrow> run_script w =
         \<lparr>after = nodes w, shown = [], uncaught = Some (FileError PermissionError)\<rparr>) \<and>
      (readable f \<and> \<not> sublist old_sensor_logic (data f) \<longrightarrow> run_script w =
         \<lparr>after = nodes w, shown = takeWhile (console_encodes w) failure_lines,
          uncaught = (if list_all (console_encodes w) failure_lines then None
            else Some UnicodeEncodeError)\<rparr>) \<and>
      (readable f \<and> sublist old_sensor_logic (data f) \<and> \<not> writable f \<longrightarrow> run_script w =
         \<lparr>after = nodes w, shown = [], uncaught = Some (FileError PermissionError)\<rparr>) \<and>
      (readable f \<and> sublist old_sensor_logic (data f) \<and> writable f \<and>
       \<not> file_encodes w (str_replace old_sensor_logic new_sensor_logic (data f)) \<longrightarrow>
         run_script w =
         \<lparr>after = (nodes w)(target \<mapsto> Regular (f\<lparr>data := []\<rparr>)), shown = [],
          uncaught = Some UnicodeEncodeError\<rparr>) \<and>
      (readable f \<and> sublist old_sensor_logic (data f) \<and> writable f \<and>
       file_encodes w (str_replace old_sensor_logic new_sensor_logic (data f)) \<longrightarrow>
         run_script w =
         \<lparr>after = (nodes w)(target \<mapsto> Regular
            (f\<lparr>data := str_replace old_sensor_logic new_sensor_logic (data f)\<rparr>)),
          shown = takeWhile (console_encodes w) success_lines,
          uncaught = (if list_all (console_encodes w) success_lines then None
            else Some UnicodeEncodeError)\<rparr>)) \<and>
   (uncaught (run_script w) = None \<longrightarrow>
      shown (run_script w) = success_lines \<or> shown (run_script w) = failure_lines)"
proof (intro conjI allI impI)
  show "run_script w =
      \<lparr>after = nodes w, shown = [], uncaught = Some (FileError FileNotFoundError)\<rparr>"
    if "nodes w target = None"
    using that by (rule run_script_read_fails)
  show "run_script w = \<lparr>after = nodes w, shown = [], uncaught = Some IsADirectoryError\<rparr>"
    if "nodes w target = Some Directory"
    using that by (rule run_script_read_fails)
  show "run_script w =
      \<lparr>after = nodes w, shown = [],
       uncaught = Some (if r then UnicodeDecodeError else FileError PermissionError)\<rparr>"
    if "nodes w target = Some (Garbled r)" for r
    using that by (rule run_script_read_fails)
next
  fix f
  assume f: "nodes w target = Some (Regular f)"
  show "run_script w =
      \<lparr>after = nodes w, shown = [], uncaught = Some (FileError PermissionError)\<rparr>"
    if "\<not> readable f"
    using f that by (rule run_script_read_fails)
  show "run_script w =
      \<lparr>after = nodes w, shown = takeWhile (console_encodes w) failure_lines,
       uncaught = (if list_all (console_encodes w) failure_lines then None
         else Some UnicodeEncodeError)\<rparr>"
    if "readable f \<and> \<not> sublist old_sensor_logic (data f)"
    using run_script_absent [of w f] f that by simp
  show "run_script w =
      \<lparr>after = nodes w, shown = [], uncaught = Some (FileError PermissionError)\<rparr>"
    if "readable f \<and> sublist old_sensor_logic (data f) \<and> \<not> writable f"
    using run_script_unwritable [of w f] f that by simp
  show "run_script w =
      \<lparr>after = (nodes w)(target \<mapsto> Regular (f\<lparr>data := []\<rparr>)), shown = [],
       uncaught = Some UnicodeEncodeError\<rparr>"
    if "readable f \<and> sublist old_sensor_logic (data f) \<and> writable f \<and>
      \<not> file_encodes w (str_replace old_sensor_logic new_sensor_logic (data f))"
    using run_script_unencodable [of w f] f that by simp
  show "run_script w =
      \<lparr>after = (nodes w)(target \<mapsto> Regular
         (f\<lparr>data := str_replace old_sensor_logic new_sensor_logic (data f)\<rparr>)),
       shown = takeWhile (console_encodes w) success_lines,
       uncaught = (if list_all (console_encodes w) success_lines then None
         else Some UnicodeEncodeError)\<rparr>"
    if "readable f \<and> sublist old_sensor_logic (data f) \<and> writable f \<and>
      file_encodes w (str_replace old_sensor_logic new_sensor_logic (data f))"
    using run_script_written [of w f] f that by simp
next
  assume "uncaught (run_script w) = None"
  then show "shown (run_script w) = success_lines \<or> shown (run_script w) = failure_lines"
    by (rule run_script_normal_end)
qed

theorem C6_unhandled_errors_witness:
  "run_script \<lparr>nodes = Map.empty, file_encodes = (\<lambda>t. True),
      console_encodes = (\<lambda>l. True), argv = []\<rparr> =
     \<lparr>after = Map.empty, shown = [], uncaught = Some (FileError FileNotFoundError)\<rparr> \<and>
   run_script (unicode_console_world old_sensor_logic) =
     \<lparr>after = nodes (unicode_console_world new_sensor_logic), shown = success_lines,
      uncaught = None\<rparr> \<and>
   run_script (ascii_console_world old_sensor_logic) =
     \<lparr>after = nodes (unicode_console_world new_sensor_logic), shown = [],
      uncaught = Some UnicodeEncodeError\<rparr> \<and>
   run_script (ascii_console_world new_sensor_logic) =
     \<lparr>after = nodes (ascii_console_world new_sensor_logic), shown = [],
      uncaught = Some UnicodeEncodeError\<rparr>"
proof -
  let ?w0 = "\<lparr>nodes = Map.empty, file_encodes = (\<lambda>t. True),
      console_encodes = (\<lambda>l. True), argv = []\<rparr>"
  have 1: "run_script ?w0 =
      \<lparr>after = Map.empty, shown = [], uncaught = Some (FileError FileNotFoundError)\<rparr>"
    using C6_unhandled_errors [of ?w0] by simp
  have 2: "run_script (unicode_console_world old_sensor_logic) =
     \<lparr>after = nodes (unicode_console_world new_sensor_logic), shown = success_lines,
      uncaught = None\<rparr>"
    using C6_unhandled_errors [of "unicode_console_world old_sensor_logic"]
    by (simp add: unicode_console_world_def str_replace_old list_all_iff)
  have 3: "run_script (ascii_console_world old_sensor_logic) =
     \<lparr>after = nodes (unicode_console_world new_sensor_logic), shown = [],
      uncaught = Some UnicodeEncodeError\<rparr>"
    using C6_unhandled_errors [of "ascii_console_world old_sensor_logic"]
    by (simp add: unicode_console_world_def ascii_console_world_def str_replace_old
        success_lines_def)
  have 4: "run_script (ascii_console_world new_sensor_logic) =
     \<lparr>after = nodes (ascii_console_world new_sensor_logic), shown = [],
      uncaught = Some UnicodeEncodeError\<rparr>"
    using C6_unhandled_errors [of "ascii_console_world new_sensor_logic"] old_not_in_new
    by (simp add: ascii_console_world_def failure_lines_def)
  from 1 2 3 4 show ?thesis by blast
qed

text \<open>
  C6, as the claim has it, fails on a target file that can be read, holds the Pattern
  and may not be written: the read succeeds, and the run ends in neither branch but
  with the \<^verbatim>\<open>PermissionError\<close> of \<^verbatim>\<open>open('network-interceptor.js', 'w')\<close>.
\<close>

theorem C6_readable_run_raises_counterexample:
  "read_file (read_only_target old_sensor_logic) target = Inr old_sensor_logic \<and>
   raised (patcher (read_only_target old_sensor_logic)) = Some PermissionError \<and>
   printed (patcher (read_only_target old_sensor_logic)) = [] \<and>
   printed (patcher (read_only_target old_sensor_logic)) \<noteq> success_lines \<and>
   printed (patcher (read_only_target old_sensor_logic)) \<noteq> failure_lines \<and>
   files (patcher (read_only_target old_sensor_logic)) = read_only_target old_sensor_logic"
proof -
  let ?f = "\<lparr>data = old_sensor_logic, readable = True, writable = False\<rparr>"
  have "read_only_target old_sensor_logic target = Some ?f"
    by (simp add: read_only_target_def)
  moreover have "sublist old_sensor_logic (data ?f)" by simp
  ultimately have "patcher (read_only_target old_sensor_logic) =
      \<lparr>files = read_only_target old_sensor_logic, printed = [],
       raised = Some PermissionError\<rparr>"
    using patcher_unwritable [of "read_only_target old_sensor_logic" ?f] by simp
  then show ?thesis
    using success_lines_nonempty failure_lines_nonempty
    by (simp add: read_file_def read_only_target_def)
qed



text \<open>
  C8. When the Pattern occurs \<open>n \<ge> 1\<close> times in the text of a target file that can be
  read and written, the run replaces all \<open>n\<close> occurrences: the text is \<open>n + 1\<close>
  stretches without the Pattern, joined by the Pattern, and the run leaves the file
  with the same stretches joined by the Replacement, and prints the success lines.
\<close>

theorem C8_every_occurrence_replaced:
  assumes "fs target = Some f" and "readable f" and "writable f"
    and "occurrences old_sensor_logic (data f) = n" and "1 \<le> n"
  shows "\<exists>us. length us = Suc n \<and> data f = join old_sensor_logic us \<and>
    (\<forall>u\<in>set us. \<not> sublist old_sensor_logic u) \<and>
    files (patcher fs) = fs(target \<mapsto> f\<lparr>data := join new_sensor_logic us\<rparr>) \<and>
    printed (patcher fs) = success_lines"
proof -
  obtain us where us: "length us = Suc (occurrences old_sensor_logic (data f))"
    "data f = join old_sensor_logic us" "\<forall>u\<in>set us. \<not> sublist old_sensor_logic u"
    "str_replace old_sensor_logic new_sensor_logic (data f) = join new_sensor_logic us"
    using str_replace_stretches [OF old_unbordered old_nonempty] by blast
  have "sublist old_sensor_logic (data f)"
    using assms(4,5) occurrences_pos_iff [of old_sensor_logic "data f"] by simp
  then have "files (patcher fs) = fs(target \<mapsto> f\<lparr>data := join new_sensor_logic us\<rparr>) \<and>
      printed (patcher fs) = success_lines"
    using patcher_found [of fs f] assms(1-3) us(4) by simp
  then show ?thesis using us(1-3) assms(4) by blast
qed

theorem C8_every_occurrence_replaced_witness:
  "occurrences old_sensor_logic (old_sensor_logic @ old_sensor_logic) = 2 \<and>
   (\<exists>us. length us = 3 \<and> old_sensor_logic @ old_sensor_logic = join old_sensor_logic us \<and>
    (\<forall>u\<in>set us. \<not> sublist old_sensor_logic u) \<and>
    files (patcher (only_target (old_sensor_logic @ old_sensor_logic))) =
      only_target (join new_sensor_logic us) \<and>
    printed (patcher (only_target (old_sensor_logic @ old_sensor_logic))) = success_lines)"
proof -
  have two: "occurrences old_sensor_logic (old_sensor_logic @ old_sensor_logic) = 2"
    using occurrences_match [OF old_unbordered old_nonempty, of old_sensor_logic]
      occurrences_match [OF old_unbordered old_nonempty, of "[]"] old_nonempty
    by simp
  let ?f = "\<lparr>data = old_sensor_logic @ old_sensor_logic, readable = True, writable = True\<rparr>"
  have "occurrences old_sensor_logic (data ?f) = 2" using two by simp
  then show ?thesis
    using C8_every_occurrence_replaced
      [of "only_target (old_sensor_logic @ old_sensor_logic)" ?f 2] two
    by (simp add: only_target_entry only_target_update numeral_3_eq_3)
qed

text \<open>
  C9. The Pattern is no part of the Replacement, and no text that
  \<^verbatim>\<open>content.replace\<close> returns holds a copy of the Pattern: not at a place where the
  Replacement was put, and nowhere else. A text that is nothing but copies of the
  Pattern becomes as many copies of the Replacement.
\<close>

theorem C9_pattern_gone_after_patch:
  "\<not> sublist old_sensor_logic new_sensor_logic \<and>
   \<not> sublist old_sensor_logic (str_replace old_sensor_logic new_sensor_logic s) \<and>
   str_replace old_sensor_logic new_sensor_logic (concat (replicate n old_sensor_logic)) =
     concat (replicate n new_sensor_logic)"
proof (intro conjI)
  show "\<not> sublist old_sensor_logic new_sensor_logic" by (rule old_not_in_new)
  show "\<not> sublist old_sensor_logic (str_replace old_sensor_logic new_sensor_logic s)"
    by (rule patched_free [OF old_new_overlap_free old_nonempty])
  show "str_replace old_sensor_logic new_sensor_logic (concat (replicate n old_sensor_logic)) =
     concat (replicate n new_sensor_logic)"
    by (induction n) (simp_all add: old_nonempty str_replace_match)
qed

theorem C9_pattern_gone_after_patch_witness:
  "\<not> sublist old_sensor_logic
      (str_replace old_sensor_logic new_sensor_logic (old_sensor_logic @ old_sensor_logic)) \<and>
   str_replace old_sensor_logic new_sensor_logic (old_sensor_logic @ old_sensor_logic) =
     new_sensor_logic @ new_sensor_logic"
proof -
  have twice: "concat (replicate 2 xs) = xs @ xs" for xs :: str
    by (simp add: numeral_2_eq_2)
  from C9_pattern_gone_after_patch [of "old_sensor_logic @ old_sensor_logic" 2]
  show ?thesis unfolding twice by blast
qed




end
